theory Spec2Isabelle
  imports Main "HOL-Library.AList"
begin

section \<open>The XML document\<close>

text \<open>
  An \<open>xml.etree.ElementTree.Element\<close>: its tag, its attribute dictionary (an association
  list, in insertion order, as a Python \<open>dict\<close> keeps it) and its child elements.
  The program holds references to elements of one tree and mutates them in place; a
  reference is modelled as the path of child indices that leads from the root to the
  element.
\<close>

datatype element = Element (tag: string) (attrib: "(string \<times> string) list") (children: "element list")

type_synonym path = "nat list"

fun get_element :: "element \<Rightarrow> path \<Rightarrow> element option" where
  "get_element e [] = Some e"
| "get_element e (i # p) =
     (if i < length (children e) then get_element (children e ! i) p else None)"

text \<open>The attribute dictionary of the element a reference points to.\<close>

definition attrib_at :: "element \<Rightarrow> path \<Rightarrow> (string \<times> string) list" where
  "attrib_at r p = (case get_element r p of None \<Rightarrow> [] | Some e \<Rightarrow> attrib e)"

text \<open>\<open>control.get(key)\<close>: \<open>None\<close> when the attribute is absent.\<close>

definition get_attr :: "element \<Rightarrow> path \<Rightarrow> string \<Rightarrow> string option" where
  "get_attr r p k = map_of (attrib_at r p) k"

text \<open>
  \<open>control.set(key, value)\<close>, that is \<open>attrib[key] = value\<close>: an existing key keeps its
  place in the dictionary, a new key goes to the end. The tree is returned with
  the one element changed.
\<close>

fun set_attr :: "element \<Rightarrow> path \<Rightarrow> string \<Rightarrow> string \<Rightarrow> element" where
  "set_attr (Element t a cs) [] k v = Element t (AList.update k v a) cs"
| "set_attr (Element t a cs) (i # p) k v =
     (if i < length cs then Element t a (cs[i := set_attr (cs ! i) p k v])
      else Element t a cs)"

text \<open>
  \<open>Element.iter(tag)\<close> walks an element and its descendants in document order and
  yields those with the given tag; \<open>root.findall('.//control')\<close> yields what
  \<open>iter\<close> yields below the root, the root itself left out.
\<close>

fun iter :: "string \<Rightarrow> element \<Rightarrow> path list"
  and iter_children :: "string \<Rightarrow> nat \<Rightarrow> element list \<Rightarrow> path list" where
  "iter t (Element tg a cs) = (if tg = t then [[]] else []) @ iter_children t 0 cs"
| "iter_children t i [] = []"
| "iter_children t i (c # cs) = map ((#) i) (iter t c) @ iter_children t (Suc i) cs"

definition findall :: "element \<Rightarrow> string \<Rightarrow> path list" where
  "findall r t = iter_children t 0 (children r)"

section \<open>Floating-point numbers\<close>

text \<open>
  The program uses four operations of Python's \<open>float\<close>: \<open>float(s)\<close> on an attribute
  string (\<open>None\<close> stands for the \<open>ValueError\<close> of a string that is not a number),
  \<open>float(0)\<close> for an absent attribute, addition, and \<open>str\<close>. They are a parameter of
  the model, so that what is proved holds for every implementation of them.
\<close>

record 'f float_ops =
  float_of_str :: "string \<Rightarrow> 'f option"
  float_of_zero :: 'f
  float_add :: "'f \<Rightarrow> 'f \<Rightarrow> 'f"
  str_of_float :: "'f \<Rightarrow> string"

section \<open>DSPresetModifier\<close>

record modifier =
  file_path :: string
  root :: element
  ui_controls :: "path list"
  control_types_found :: "(string \<times> nat) list"

record 'f rect =
  rect_x :: 'f
  rect_y :: 'f
  rect_width :: 'f
  rect_height :: 'f

text \<open>An entry of the list \<open>changes\<close>, from which the report is printed.\<close>

record 'f change =
  c_id :: string
  c_type :: string
  c_old :: "'f rect"
  c_new :: "'f rect"
  c_element :: path

record stats =
  found :: nat
  modified :: nat
  skipped :: nat

subsection \<open>modify_controls\<close>

text \<open>\<open>float(control.get(key, 0))\<close>.\<close>

definition float_attr :: "'f float_ops \<Rightarrow> element \<Rightarrow> path \<Rightarrow> string \<Rightarrow> 'f option" where
  "float_attr fl r p k =
     (case get_attr r p k of None \<Rightarrow> Some (float_of_zero fl) | Some s \<Rightarrow> float_of_str fl s)"

text \<open>The four conversions of the \<open>try\<close> block, in the order x, y, width, height; the
  first that raises ends the block.\<close>

definition read_rect :: "'f float_ops \<Rightarrow> element \<Rightarrow> path \<Rightarrow> 'f rect option" where
  "read_rect fl r p =
     (case float_attr fl r p ''x'' of None \<Rightarrow> None | Some x \<Rightarrow>
      case float_attr fl r p ''y'' of None \<Rightarrow> None | Some y \<Rightarrow>
      case float_attr fl r p ''width'' of None \<Rightarrow> None | Some w \<Rightarrow>
      case float_attr fl r p ''height'' of None \<Rightarrow> None | Some h \<Rightarrow>
        Some \<lparr>rect_x = x, rect_y = y, rect_width = w, rect_height = h\<rparr>)"

definition add_offsets :: "'f float_ops \<Rightarrow> 'f rect \<Rightarrow> 'f \<Rightarrow> 'f \<Rightarrow> 'f \<Rightarrow> 'f \<Rightarrow> 'f rect" where
  "add_offsets fl old x_offset y_offset width_offset height_offset =
     \<lparr>rect_x = float_add fl (rect_x old) x_offset,
      rect_y = float_add fl (rect_y old) y_offset,
      rect_width = float_add fl (rect_width old) width_offset,
      rect_height = float_add fl (rect_height old) height_offset\<rparr>"

text \<open>\<open>control.get('id', control.get('label', 'unnamed'))\<close>.\<close>

definition control_id :: "element \<Rightarrow> path \<Rightarrow> string" where
  "control_id r p =
     (case get_attr r p ''id'' of Some i \<Rightarrow> i
      | None \<Rightarrow> (case get_attr r p ''label'' of Some l \<Rightarrow> l | None \<Rightarrow> ''unnamed''))"

text \<open>The body of the \<open>try\<close> block for a control of a selected type: the change it
  records, \<open>None\<close> when a conversion raises.\<close>

definition change_of ::
  "'f float_ops \<Rightarrow> element \<Rightarrow> string \<Rightarrow> 'f \<Rightarrow> 'f \<Rightarrow> 'f \<Rightarrow> 'f \<Rightarrow> path \<Rightarrow>
   'f change option" where
  "change_of fl r control_type_attr x_offset y_offset width_offset height_offset p =
     (case read_rect fl r p of None \<Rightarrow> None
      | Some old \<Rightarrow>
          Some \<lparr>c_id = control_id r p,
                c_type = control_type_attr,
                c_old = old,
                c_new = add_offsets fl old x_offset y_offset width_offset height_offset,
                c_element = p\<rparr>)"

text \<open>One round of the first loop: the body for one control, on the statistics and the
  list of changes collected so far. \<open>control.get('type')\<close> is \<open>None\<close> for an absent
  attribute, and \<open>None\<close> is no member of a list of strings.\<close>

definition scan_control ::
  "'f float_ops \<Rightarrow> element \<Rightarrow> string list \<Rightarrow> 'f \<Rightarrow> 'f \<Rightarrow> 'f \<Rightarrow> 'f \<Rightarrow>
   stats \<times> 'f change list \<Rightarrow> path \<Rightarrow> stats \<times> 'f change list" where
  "scan_control fl r selected_types x_offset y_offset width_offset height_offset acc p =
     (case acc of (st, changes) \<Rightarrow>
        (case get_attr r p ''type'' of
           None \<Rightarrow> (st, changes)
         | Some control_type_attr \<Rightarrow>
             if control_type_attr \<in> set selected_types then
               (case change_of fl r control_type_attr
                       x_offset y_offset width_offset height_offset p of
                  Some ch \<Rightarrow> (st\<lparr>found := found st + 1\<rparr>, changes @ [ch])
                | None \<Rightarrow> (st\<lparr>found := found st + 1, skipped := skipped st + 1\<rparr>, changes))
             else (st, changes)))"

text \<open>The body of the second loop: the four \<open>control.set(attr, str(value))\<close> in the
  order of the dictionary \<open>new_vals\<close>, then the count.\<close>

definition write_rect :: "'f float_ops \<Rightarrow> element \<Rightarrow> path \<Rightarrow> 'f rect \<Rightarrow> element" where
  "write_rect fl r p new =
     set_attr (set_attr (set_attr (set_attr r
       p ''x'' (str_of_float fl (rect_x new)))
       p ''y'' (str_of_float fl (rect_y new)))
       p ''width'' (str_of_float fl (rect_width new)))
       p ''height'' (str_of_float fl (rect_height new))"

definition apply_change ::
  "'f float_ops \<Rightarrow> element \<times> stats \<Rightarrow> 'f change \<Rightarrow> element \<times> stats" where
  "apply_change fl acc ch =
     (case acc of (r, st) \<Rightarrow>
        (write_rect fl r (c_element ch) (c_new ch), st\<lparr>modified := modified st + 1\<rparr>))"

text \<open>
  \<open>modify_controls\<close> returns the statistics; the model returns with them the modifier
  after the call and the list \<open>changes\<close> that is handed to \<open>_print_changes\<close>, which
  prints one block for each of its entries.
\<close>

definition modify_controls ::
  "'f float_ops \<Rightarrow> modifier \<Rightarrow> string list \<Rightarrow> 'f \<Rightarrow> 'f \<Rightarrow> 'f \<Rightarrow> 'f \<Rightarrow> bool \<Rightarrow>
   modifier \<times> stats \<times> 'f change list" where
  "modify_controls fl s selected_types x_offset y_offset width_offset height_offset preview =
     (case foldl (scan_control fl (root s) selected_types
                    x_offset y_offset width_offset height_offset)
                 (\<lparr>found = 0, modified = 0, skipped = 0\<rparr>, []) (ui_controls s) of
        (st, changes) \<Rightarrow>
          if \<not> preview \<and> changes \<noteq> [] then
            (case foldl (apply_change fl) (root s, st) changes of
               (r', st') \<Rightarrow> (s\<lparr>root := r'\<rparr>, st', changes))
          else (s, st, changes))"

subsection \<open>_load_file\<close>

text \<open>
  The exceptions the program raises or lets through. \<open>ValueError\<close> carries the message
  of the \<open>raise\<close> statement (for malformed XML its fixed first part); \<open>IOError\<close> stands
  for every \<open>OSError\<close>, of which \<open>IOError\<close> is the other name.
\<close>

datatype error = ValueError string | FileNotFoundError | IOError | UnicodeDecodeError

text \<open>
  The files: the bytes stored under each path, the paths that can be opened for writing,
  and \<open>os.linesep\<close>.
\<close>

record filesystem =
  files :: "string \<Rightarrow> string option"
  writable :: "string \<Rightarrow> bool"
  linesep :: string

definition endswith :: "string \<Rightarrow> string \<Rightarrow> bool" where
  "endswith s suffix =
     (length suffix \<le> length s \<and> drop (length s - length suffix) s = suffix)"

text \<open>\<open>control.get('type', 'unknown')\<close>.\<close>

definition control_type_of :: "element \<Rightarrow> path \<Rightarrow> string" where
  "control_type_of r p = (case get_attr r p ''type'' of None \<Rightarrow> ''unknown'' | Some t \<Rightarrow> t)"

text \<open>\<open>control_types_found[t] = control_types_found.get(t, 0) + 1\<close>.\<close>

definition count_type :: "element \<Rightarrow> (string \<times> nat) list \<Rightarrow> path \<Rightarrow> (string \<times> nat) list" where
  "count_type r found_types p =
     (let control_type = control_type_of r p in
      AList.update control_type
        ((case map_of found_types control_type of None \<Rightarrow> 0 | Some n \<Rightarrow> n) + 1) found_types)"

text \<open>
  \<open>ET.parse\<close> is a parameter: \<open>xml_parse bytes\<close> is the root of the parsed tree, or
  \<open>None\<close> where the parser raises \<open>ParseError\<close>.
\<close>

definition load_file ::
  "(string \<Rightarrow> element option) \<Rightarrow> filesystem \<Rightarrow> string \<Rightarrow> error + modifier" where
  "load_file xml_parse fs path =
     (if \<not> endswith path ''.dspreset'' then
        Inl (ValueError ''File must have .dspreset extension'')
      else case files fs path of
        None \<Rightarrow> Inl FileNotFoundError
      | Some bytes \<Rightarrow>
          (case xml_parse bytes of
             None \<Rightarrow> Inl (ValueError (''Invalid XML format in '' @ path))
           | Some r \<Rightarrow>
               if tag r \<noteq> ''DecentSampler'' then
                 Inl (ValueError
                   ''Not a valid Decent Sampler preset file (missing DecentSampler root)'')
               else
                 Inr \<lparr>file_path = path, root = r,
                      ui_controls = findall r ''control'',
                      control_types_found =
                        (if findall r ''control'' = [] then []
                         else foldl (count_type r) [] (findall r ''control''))\<rparr>))"

section \<open>Notions used in the statements\<close>

text \<open>The number of elements with a given tag in a tree, the root counted.\<close>

fun count_tag :: "string \<Rightarrow> element \<Rightarrow> nat" where
  "count_tag t (Element tg a cs) = (if tg = t then 1 else 0) + sum_list (map (count_tag t) cs)"

text \<open>
  What the constructor establishes and \<open>modify_controls\<close> keeps: the references in
  \<open>ui_controls\<close> are pairwise different and each points to an element of the tree.
\<close>

definition wf_modifier :: "modifier \<Rightarrow> bool" where
  "wf_modifier s =
     (distinct (ui_controls s) \<and>
      list_all (\<lambda>p. get_element (root s) p \<noteq> None) (ui_controls s))"

text \<open>A control whose \<open>type\<close> attribute is present and a member of the selection.\<close>

definition type_selected :: "element \<Rightarrow> string list \<Rightarrow> path \<Rightarrow> bool" where
  "type_selected r selected_types p =
     (case get_attr r p ''type'' of None \<Rightarrow> False | Some t \<Rightarrow> t \<in> set selected_types)"

text \<open>A control of a selected type whose four attributes convert, and one of a selected
  type with an attribute that does not.\<close>

definition modifiable :: "'f float_ops \<Rightarrow> element \<Rightarrow> string list \<Rightarrow> path \<Rightarrow> bool" where
  "modifiable fl r sel p = (type_selected r sel p \<and> read_rect fl r p \<noteq> None)"

definition unparsable :: "'f float_ops \<Rightarrow> element \<Rightarrow> string list \<Rightarrow> path \<Rightarrow> bool" where
  "unparsable fl r sel p = (type_selected r sel p \<and> read_rect fl r p = None)"

text \<open>The attribute dictionary after the four assignments of one change.\<close>

definition rect_attrib ::
  "'f float_ops \<Rightarrow> 'f rect \<Rightarrow> (string \<times> string) list \<Rightarrow> (string \<times> string) list" where
  "rect_attrib fl new a =
     AList.update ''height'' (str_of_float fl (rect_height new))
       (AList.update ''width'' (str_of_float fl (rect_width new))
         (AList.update ''y'' (str_of_float fl (rect_y new))
           (AList.update ''x'' (str_of_float fl (rect_x new)) a)))"

text \<open>The list \<open>changes\<close> in closed form.\<close>

definition recorded_change ::
  "'f float_ops \<Rightarrow> element \<Rightarrow> 'f \<Rightarrow> 'f \<Rightarrow> 'f \<Rightarrow> 'f \<Rightarrow> path \<Rightarrow> 'f change option" where
  "recorded_change fl r dx dy dw dh p =
     (case get_attr r p ''type'' of None \<Rightarrow> None | Some t \<Rightarrow> change_of fl r t dx dy dw dh p)"

definition changes_of ::
  "'f float_ops \<Rightarrow> element \<Rightarrow> string list \<Rightarrow> 'f \<Rightarrow> 'f \<Rightarrow> 'f \<Rightarrow> 'f \<Rightarrow> path list \<Rightarrow>
   'f change list" where
  "changes_of fl r sel dx dy dw dh ps =
     map (\<lambda>p. the (recorded_change fl r dx dy dw dh p)) (filter (modifiable fl r sel) ps)"

section \<open>Integer-valued floats\<close>

text \<open>
  A concrete implementation of the float operations for the examples: the floats whose
  value is an integer, written in decimal with an optional sign and an optional
  fraction of zeros (\<open>10\<close>, \<open>-5\<close>, \<open>15.0\<close>). On these Python's \<open>float\<close>, \<open>+\<close> and \<open>str\<close>
  are exact as long as the magnitudes stay below \<open>2 ^ 53\<close>, and \<open>str\<close> prints the integer
  followed by \<open>.0\<close>. Any other string is refused here, also the ones Python accepts
  (\<open>1e3\<close>, \<open>0.5\<close>, \<open>inf\<close>); the examples do not use them.
\<close>

definition digit_of :: "char \<Rightarrow> nat option" where
  "digit_of c = map_of
     [(CHR ''0'', 0), (CHR ''1'', 1), (CHR ''2'', 2), (CHR ''3'', 3), (CHR ''4'', 4),
      (CHR ''5'', 5), (CHR ''6'', 6), (CHR ''7'', 7), (CHR ''8'', 8), (CHR ''9'', 9)] c"

fun nat_of_digits :: "nat \<Rightarrow> string \<Rightarrow> nat option" where
  "nat_of_digits acc [] = Some acc"
| "nat_of_digits acc (c # cs) =
     (case digit_of c of None \<Rightarrow> None | Some d \<Rightarrow> nat_of_digits (10 * acc + d) cs)"

definition int_float_of_str :: "string \<Rightarrow> int option" where
  "int_float_of_str s =
     (let negative = (s \<noteq> [] \<and> hd s = CHR ''-'');
          body = (if s \<noteq> [] \<and> (hd s = CHR ''-'' \<or> hd s = CHR ''+'') then tl s else s);
          whole = takeWhile (\<lambda>c. c \<noteq> CHR ''.'') body;
          fraction = dropWhile (\<lambda>c. c \<noteq> CHR ''.'') body
      in if whole = [] \<or> \<not> (fraction = [] \<or> list_all (\<lambda>c. c = CHR ''0'') (tl fraction))
         then None
         else (case nat_of_digits 0 whole of
                 None \<Rightarrow> None
               | Some n \<Rightarrow> Some (if negative then - int n else int n)))"

fun digits_of_nat :: "nat \<Rightarrow> string" where
  "digits_of_nat n =
     (if n < 10 then [''0123456789'' ! n]
      else digits_of_nat (n div 10) @ [''0123456789'' ! (n mod 10)])"

declare digits_of_nat.simps [simp del]

definition int_str_of_float :: "int \<Rightarrow> string" where
  "int_str_of_float v = (if v < 0 then ''-'' else []) @ digits_of_nat (nat \<bar>v\<bar>) @ ''.0''"

definition int_floats :: "int float_ops" where
  "int_floats =
     \<lparr>float_of_str = int_float_of_str, float_of_zero = 0, float_add = (+),
      str_of_float = int_str_of_float\<rparr>"

section \<open>An example document\<close>

text \<open>
  A preset with four controls below \<open>ui/tab\<close>: a knob, a label without width and
  height, a control without a type, and a knob whose width is not a number.
\<close>

definition example_root :: element where
  "example_root =
     Element ''DecentSampler'' []
       [Element ''ui'' [(''width'', ''812''), (''height'', ''375'')]
          [Element ''tab'' [(''name'', ''main'')]
             [Element ''control''
                [(''type'', ''knob''), (''id'', ''k1''), (''x'', ''10''), (''y'', ''20''),
                 (''width'', ''30''), (''height'', ''30'')] [],
              Element ''control''
                [(''type'', ''label''), (''label'', ''Title''), (''x'', ''5''), (''y'', ''5'')] [],
              Element ''control''
                [(''x'', ''1''), (''y'', ''2''), (''width'', ''3''), (''height'', ''4'')] [],
              Element ''control''
                [(''type'', ''knob''), (''x'', ''0''), (''y'', ''0''), (''width'', ''wide''),
                 (''height'', ''1'')] []]]]"

definition example_modifier :: modifier where
  "example_modifier =
     \<lparr>file_path = ''a.dspreset'', root = example_root,
      ui_controls = [[0, 0, 0], [0, 0, 1], [0, 0, 2], [0, 0, 3]],
      control_types_found = [(''knob'', 2), (''label'', 1), (''unknown'', 1)]\<rparr>"


text \<open>
  The file of the example document, a file with another root, and a parser that knows
  these two texts.
\<close>

definition example_bytes :: string where
  "example_bytes =
     ''<DecentSampler><ui width='812' height='375'><tab name='main'>'' @
     ''<control type='knob' id='k1' x='10' y='20' width='30' height='30' />'' @
     ''<control type='label' label='Title' x='5' y='5' />'' @
     ''<control x='1' y='2' width='3' height='4' />'' @
     ''<control type='knob' x='0' y='0' width='wide' height='1' />'' @
     ''</tab></ui></DecentSampler>''"

definition example_parse :: "string \<Rightarrow> element option" where
  "example_parse =
     map_of [(example_bytes, example_root),
             (''<preset><control type='knob' /></preset>'',
              Element ''preset'' [] [Element ''control'' [(''type'', ''knob'')] []])]"

definition example_fs :: filesystem where
  "example_fs =
     \<lparr>files = [''a.dspreset'' \<mapsto> example_bytes,
               ''b.dspreset'' \<mapsto> ''<preset><control type='knob' /></preset>''],
      writable = (\<lambda>path. True),
      linesep = [CHR 0x0A]\<rparr>"

section \<open>Reading and writing attributes through a reference\<close>


lemma tag_set_attr [simp]: "tag (set_attr e p k v) = tag e"
  by (cases e; cases p) simp_all

lemma length_children_set_attr [simp]: "length (children (set_attr e p k v)) = length (children e)"
  by (cases e; cases p) simp_all

lemma attrib_set_attr:
  "attrib (set_attr e p k v) = (if p = [] then AList.update k v (attrib e) else attrib e)"
  by (cases e; cases p) simp_all

lemma get_element_set_attr_same:
  "get_element (set_attr e p k v) p = map_option (\<lambda>x. Element (tag x) (AList.update k v (attrib x)) (children x)) (get_element e p)"
proof (induction p arbitrary: e)
  case Nil
  then show ?case by (cases e) simp
next
  case (Cons i p)
  then show ?case by (cases e) simp
qed

lemma attrib_get_element_set_attr_other:
  "q \<noteq> p \<Longrightarrow> map_option attrib (get_element (set_attr e p k v) q) = map_option attrib (get_element e q)"
proof (induction q arbitrary: e p)
  case Nil
  then show ?case by (cases e; cases p) simp_all
next
  case (Cons i q)
  show ?case
  proof (cases p)
    case Nil
    then show ?thesis by (cases e) simp
  next
    case (Cons j p')
    show ?thesis
    proof (cases "i = j")
      case True
      with Cons Cons.prems have "q \<noteq> p'" by simp
      from Cons.IH[OF this] True Cons show ?thesis by (cases e) simp
    next
      case False
      with Cons show ?thesis by (cases e) simp
    qed
  qed
qed

lemma valid_set_attr:
  "(get_element (set_attr e p k v) q = None) = (get_element e q = None)"
proof (induction q arbitrary: e p)
  case Nil
  then show ?case by simp
next
  case (Cons i q)
  show ?case
  proof (cases p)
    case Nil
    then show ?thesis by (cases e) simp
  next
    case (Cons j p')
    then show ?thesis using Cons.IH by (cases e) (simp add: nth_list_update)
  qed
qed

lemma attrib_at_set_attr:
  "attrib_at (set_attr r p k v) q =
     (if q = p \<and> get_element r p \<noteq> None then AList.update k v (attrib_at r p) else attrib_at r q)"
proof (cases "q = p")
  case True
  then show ?thesis
    by (cases "get_element r p") (simp_all add: attrib_at_def get_element_set_attr_same)
next
  case False
  from attrib_get_element_set_attr_other[OF this, of r k v] show ?thesis
    using False by (auto simp: attrib_at_def split: option.splits)
qed



lemma valid_write_rect:
  "(get_element (write_rect fl r p new) q = None) = (get_element r q = None)"
  by (simp add: write_rect_def valid_set_attr)

lemma attrib_at_write_rect:
  "attrib_at (write_rect fl r p new) q =
     (if q = p \<and> get_element r p \<noteq> None then rect_attrib fl new (attrib_at r p)
      else attrib_at r q)"
proof (cases "q = p \<and> get_element r p \<noteq> None")
  case True
  then have v: "get_element r p \<noteq> None" and e: "q = p" by simp_all
  let ?r1 = "set_attr r p ''x'' (str_of_float fl (rect_x new))"
  let ?r2 = "set_attr ?r1 p ''y'' (str_of_float fl (rect_y new))"
  let ?r3 = "set_attr ?r2 p ''width'' (str_of_float fl (rect_width new))"
  have v1: "get_element ?r1 p \<noteq> None" using v by (simp add: valid_set_attr)
  have v2: "get_element ?r2 p \<noteq> None" using v1 by (simp only: valid_set_attr not_False_eq_True)
  have v3: "get_element ?r3 p \<noteq> None" using v2 by (simp only: valid_set_attr not_False_eq_True)
  have a1: "attrib_at ?r1 p = AList.update ''x'' (str_of_float fl (rect_x new)) (attrib_at r p)"
    using v by (simp add: attrib_at_set_attr)
  have a2: "attrib_at ?r2 p = AList.update ''y'' (str_of_float fl (rect_y new)) (attrib_at ?r1 p)"
    using v1 by (simp only: attrib_at_set_attr simp_thms if_True)
  have a3: "attrib_at ?r3 p = AList.update ''width'' (str_of_float fl (rect_width new)) (attrib_at ?r2 p)"
    using v2 by (simp only: attrib_at_set_attr simp_thms if_True)
  have a4: "attrib_at (write_rect fl r p new) p
              = AList.update ''height'' (str_of_float fl (rect_height new)) (attrib_at ?r3 p)"
    unfolding write_rect_def using v3 by (simp only: attrib_at_set_attr simp_thms if_True)
  show ?thesis using True by (simp only: e a4 a3 a2 a1 rect_attrib_def simp_thms if_True)
next
  case False
  then have "q \<noteq> p \<or> get_element r p = None" by blast
  then show ?thesis
    using False by (auto simp: write_rect_def attrib_at_set_attr valid_set_attr)
qed

lemma scan_control_step:
  "scan_control fl r sel dx dy dw dh (st, chs) p =
     (if type_selected r sel p then
        (case recorded_change fl r dx dy dw dh p of
           Some ch \<Rightarrow> (st\<lparr>found := found st + 1\<rparr>, chs @ [ch])
         | None \<Rightarrow> (st\<lparr>found := found st + 1, skipped := skipped st + 1\<rparr>, chs))
      else (st, chs))"
  by (simp add: scan_control_def type_selected_def recorded_change_def split: option.splits)

lemma foldl_apply_change:
  "foldl (apply_change fl) (r, st) chs =
     (foldl (\<lambda>r ch. write_rect fl r (c_element ch) (c_new ch)) r chs,
      st\<lparr>modified := modified st + length chs\<rparr>)"
proof (induction chs arbitrary: r st)
  case Nil
  then show ?case by simp
next
  case (Cons c chs)
  have "apply_change fl (r, st) c
          = (write_rect fl r (c_element c) (c_new c), st\<lparr>modified := modified st + 1\<rparr>)"
    by (simp add: apply_change_def)
  then show ?case by (simp add: Cons.IH)
qed

lemma valid_foldl_write:
  "(get_element (foldl (\<lambda>r ch. write_rect fl r (c_element ch) (c_new ch)) r chs) q = None)
     = (get_element r q = None)"
  by (induction chs arbitrary: r) (simp_all add: valid_write_rect)

lemma attrib_at_foldl_write_other:
  "q \<notin> c_element ` set chs \<Longrightarrow>
   attrib_at (foldl (\<lambda>r ch. write_rect fl r (c_element ch) (c_new ch)) r chs) q = attrib_at r q"
  by (induction chs arbitrary: r) (simp_all add: attrib_at_write_rect)

lemma attrib_at_foldl_write_hit:
  "distinct (map c_element chs) \<Longrightarrow> ch \<in> set chs \<Longrightarrow> get_element r (c_element ch) \<noteq> None \<Longrightarrow>
   attrib_at (foldl (\<lambda>r ch. write_rect fl r (c_element ch) (c_new ch)) r chs) (c_element ch)
     = rect_attrib fl (c_new ch) (attrib_at r (c_element ch))"
proof (induction chs arbitrary: r)
  case Nil
  then show ?case by simp
next
  case (Cons c chs)
  show ?case
  proof (cases "ch = c")
    case True
    with Cons.prems have "c_element ch \<notin> c_element ` set chs" by auto
    then show ?thesis using True Cons.prems(3)
      by (simp add: attrib_at_foldl_write_other attrib_at_write_rect)
  next
    case False
    with Cons.prems have in_tl: "ch \<in> set chs" and d: "distinct (map c_element chs)"
      and nin: "c_element c \<notin> c_element ` set chs" by auto
    from in_tl nin have ne: "c_element ch \<noteq> c_element c" by (metis imageI)
    have v: "get_element (write_rect fl r (c_element c) (c_new c)) (c_element ch) \<noteq> None"
      using Cons.prems(3) by (simp add: valid_write_rect)
    from Cons.IH[OF d in_tl v] ne show ?thesis
      by (simp add: attrib_at_write_rect)
  qed
qed


section \<open>The two loops of modify_controls\<close>


lemma recorded_change_None:
  "type_selected r sel p \<Longrightarrow>
     (recorded_change fl r dx dy dw dh p = None) = (read_rect fl r p = None)"
  by (simp add: recorded_change_def change_of_def type_selected_def split: option.splits)

lemma c_element_recorded_change:
  "type_selected r sel p \<Longrightarrow> read_rect fl r p = Some old \<Longrightarrow>
     c_element (the (recorded_change fl r dx dy dw dh p)) = p"
  by (simp add: recorded_change_def change_of_def type_selected_def split: option.splits)

lemma c_new_recorded_change:
  "type_selected r sel p \<Longrightarrow> read_rect fl r p = Some old \<Longrightarrow>
     c_new (the (recorded_change fl r dx dy dw dh p)) = add_offsets fl old dx dy dw dh"
  by (simp add: recorded_change_def change_of_def type_selected_def split: option.splits)

lemma foldl_scan_control:
  "foldl (scan_control fl r sel dx dy dw dh) (st, chs) ps =
     (st\<lparr>found := found st + length (filter (type_selected r sel) ps),
         skipped := skipped st + length (filter (unparsable fl r sel) ps)\<rparr>,
      chs @ changes_of fl r sel dx dy dw dh ps)"
proof (induction ps arbitrary: st chs)
  case Nil
  then show ?case by (simp add: changes_of_def)
next
  case (Cons p ps)
  show ?case
  proof (cases "type_selected r sel p")
    case False
    then show ?thesis
      by (simp add: Cons.IH scan_control_step changes_of_def modifiable_def unparsable_def)
  next
    case True
    show ?thesis
    proof (cases "recorded_change fl r dx dy dw dh p")
      case None
      then have "read_rect fl r p = None" using True by (simp add: recorded_change_None)
      with True None show ?thesis
        by (simp add: Cons.IH scan_control_step changes_of_def modifiable_def unparsable_def)
    next
      case (Some ch)
      then have "read_rect fl r p \<noteq> None"
        using recorded_change_None[OF True, of fl dx dy dw dh] by simp
      with True Some show ?thesis
        by (simp add: Cons.IH scan_control_step changes_of_def modifiable_def unparsable_def)
    qed
  qed
qed

lemma c_element_changes_of:
  "map c_element (changes_of fl r sel dx dy dw dh ps) = filter (modifiable fl r sel) ps"
proof -
  have "map (\<lambda>p. c_element (the (recorded_change fl r dx dy dw dh p)))
            (filter (modifiable fl r sel) ps)
          = map (\<lambda>p. p) (filter (modifiable fl r sel) ps)"
    by (rule map_cong) (auto simp: modifiable_def c_element_recorded_change)
  then show ?thesis by (simp add: changes_of_def comp_def)
qed

lemma length_changes_of:
  "length (changes_of fl r sel dx dy dw dh ps) = length (filter (modifiable fl r sel) ps)"
  by (simp add: changes_of_def)

lemma modify_controls_eq:
  "modify_controls fl s sel dx dy dw dh pv =
     ((if pv then s
       else s\<lparr>root := foldl (\<lambda>r ch. write_rect fl r (c_element ch) (c_new ch)) (root s)
                         (changes_of fl (root s) sel dx dy dw dh (ui_controls s))\<rparr>),
      \<lparr>found = length (filter (type_selected (root s) sel) (ui_controls s)),
       modified = (if pv then 0 else length (filter (modifiable fl (root s) sel) (ui_controls s))),
       skipped = length (filter (unparsable fl (root s) sel) (ui_controls s))\<rparr>,
      changes_of fl (root s) sel dx dy dw dh (ui_controls s))"
proof (cases "\<not> pv \<and> changes_of fl (root s) sel dx dy dw dh (ui_controls s) \<noteq> []")
  case True
  then show ?thesis
    unfolding modify_controls_def foldl_scan_control
    by (simp add: foldl_apply_change length_changes_of)
next
  case False
  show ?thesis
  proof (cases pv)
    case True
    then show ?thesis
      unfolding modify_controls_def foldl_scan_control by simp
  next
    case npv: False
    with False have e: "changes_of fl (root s) sel dx dy dw dh (ui_controls s) = []" by simp
    then have "length (filter (modifiable fl (root s) sel) (ui_controls s)) = 0"
      using length_changes_of[of fl "root s" sel dx dy dw dh "ui_controls s"] by simp
    then show ?thesis
      unfolding modify_controls_def foldl_scan_control using npv e by simp
  qed
qed



lemma root_modify_apply:
  "root (fst (modify_controls fl s sel dx dy dw dh False))
     = foldl (\<lambda>r ch. write_rect fl r (c_element ch) (c_new ch)) (root s)
         (changes_of fl (root s) sel dx dy dw dh (ui_controls s))"
  by (simp add: modify_controls_eq)

lemma ui_controls_modify:
  "ui_controls (fst (modify_controls fl s sel dx dy dw dh pv)) = ui_controls s"
  by (simp add: modify_controls_eq)

lemma attrib_at_modify_other:
  "\<not> (p \<in> set (ui_controls s) \<and> modifiable fl (root s) sel p) \<Longrightarrow>
   attrib_at (root (fst (modify_controls fl s sel dx dy dw dh pv))) p = attrib_at (root s) p"
proof (cases pv)
  case True
  then show ?thesis by (simp add: modify_controls_eq)
next
  case False
  assume n: "\<not> (p \<in> set (ui_controls s) \<and> modifiable fl (root s) sel p)"
  have "set (map c_element (changes_of fl (root s) sel dx dy dw dh (ui_controls s)))
          = {q \<in> set (ui_controls s). modifiable fl (root s) sel q}"
    by (simp only: c_element_changes_of set_filter)
  with n have "p \<notin> c_element ` set (changes_of fl (root s) sel dx dy dw dh (ui_controls s))"
    by auto
  then show ?thesis using False
    by (simp add: modify_controls_eq attrib_at_foldl_write_other)
qed

lemma attrib_at_modify_hit:
  assumes wf: "wf_modifier s"
    and p: "p \<in> set (ui_controls s)"
    and t: "type_selected (root s) sel p"
    and old: "read_rect fl (root s) p = Some old"
  shows "attrib_at (root (fst (modify_controls fl s sel dx dy dw dh False))) p
           = rect_attrib fl (add_offsets fl old dx dy dw dh) (attrib_at (root s) p)"
proof -
  let ?chs = "changes_of fl (root s) sel dx dy dw dh (ui_controls s)"
  let ?ch = "the (recorded_change fl (root s) dx dy dw dh p)"
  have m: "modifiable fl (root s) sel p" using t old by (simp add: modifiable_def)
  have d: "distinct (map c_element ?chs)"
    using wf by (simp add: c_element_changes_of wf_modifier_def)
  have i: "?ch \<in> set ?chs" using p m by (simp add: changes_of_def)
  have e: "c_element ?ch = p" using t old by (rule c_element_recorded_change)
  have n: "c_new ?ch = add_offsets fl old dx dy dw dh" using t old by (rule c_new_recorded_change)
  have v: "get_element (root s) (c_element ?ch) \<noteq> None"
    using wf p e by (simp add: wf_modifier_def list_all_iff)
  from attrib_at_foldl_write_hit[OF d i v, of fl] show ?thesis
    by (simp only: e n root_modify_apply)
qed

lemma wf_modify:
  "wf_modifier s \<Longrightarrow> wf_modifier (fst (modify_controls fl s sel dx dy dw dh pv))"
  by (cases pv) (simp_all add: modify_controls_eq wf_modifier_def valid_foldl_write)

lemma changes_elements:
  "c_element ` set (snd (snd (modify_controls fl s sel dx dy dw dh pv)))
     = {q \<in> set (ui_controls s). modifiable fl (root s) sel q}"
proof -
  have "set (map c_element (changes_of fl (root s) sel dx dy dw dh (ui_controls s)))
          = {q \<in> set (ui_controls s). modifiable fl (root s) sel q}"
    by (simp only: c_element_changes_of set_filter)
  then show ?thesis by (simp add: modify_controls_eq)
qed

lemma filter_neq_unselected:
  "\<not> P p \<Longrightarrow> filter (\<lambda>q. q \<noteq> p \<and> P q) ps = filter P ps"
  by (rule filter_cong) auto

lemma length_filter_split:
  "distinct ps \<Longrightarrow> p \<in> set ps \<Longrightarrow> P p \<Longrightarrow>
   length (filter P ps) = Suc (length (filter (\<lambda>q. q \<noteq> p \<and> P q) ps))"
proof (induction ps)
  case Nil
  then show ?case by simp
next
  case (Cons a ps)
  show ?case
  proof (cases "a = p")
    case True
    with Cons.prems have "p \<notin> set ps" by simp
    then have "filter (\<lambda>q. q \<noteq> p \<and> P q) ps = filter P ps"
      by (intro filter_cong) auto
    with True Cons.prems show ?thesis by simp
  next
    case False
    with Cons show ?thesis by simp
  qed
qed


lemma read_rect_Some:
  "read_rect fl r p = Some old \<longleftrightarrow>
     (float_attr fl r p ''x'' = Some (rect_x old) \<and> float_attr fl r p ''y'' = Some (rect_y old) \<and>
      float_attr fl r p ''width'' = Some (rect_width old) \<and>
      float_attr fl r p ''height'' = Some (rect_height old))"
  by (cases old) (auto simp: read_rect_def split: option.splits)

lemma read_rect_width_None:
  "get_attr r p ''width'' = Some w \<Longrightarrow> float_of_str fl w = None \<Longrightarrow> read_rect fl r p = None"
  by (simp add: read_rect_def float_attr_def split: option.splits)

lemma map_of_rect_attrib:
  "map_of (rect_attrib fl new a) =
     (map_of a)(''x'' \<mapsto> str_of_float fl (rect_x new), ''y'' \<mapsto> str_of_float fl (rect_y new),
        ''width'' \<mapsto> str_of_float fl (rect_width new),
        ''height'' \<mapsto> str_of_float fl (rect_height new))"
  by (simp add: rect_attrib_def AList.update_conv')

lemma stats_modify:
  "fst (snd (modify_controls fl s sel dx dy dw dh pv)) =
      \<lparr>found = length (filter (type_selected (root s) sel) (ui_controls s)),
       modified = (if pv then 0 else length (filter (modifiable fl (root s) sel) (ui_controls s))),
       skipped = length (filter (unparsable fl (root s) sel) (ui_controls s))\<rparr>"
  by (simp add: modify_controls_eq)

section \<open>Preview\<close>

text \<open>
  C1. A call of \<open>modify_controls\<close> with \<open>preview = True\<close> returns the modifier as it was,
  document included, and a call with \<open>preview = False\<close> on the modifier it leaves, with
  the same selection and offsets, records the same changes: for every matched control the
  same old and the same new x, y, width and height.
\<close>

theorem preview_leaves_document_and_values:
  "fst (modify_controls fl s sel dx dy dw dh True) = s \<and>
   snd (snd (modify_controls fl (fst (modify_controls fl s sel dx dy dw dh True))
               sel dx dy dw dh False))
     = snd (snd (modify_controls fl s sel dx dy dw dh True))"
proof -
  have a: "fst (modify_controls fl s sel dx dy dw dh True) = s"
    by (simp add: modify_controls_def split: prod.splits)
  have b: "snd (snd (modify_controls fl s sel dx dy dw dh pv))
             = snd (foldl (scan_control fl (root s) sel dx dy dw dh)
                      (\<lparr>found = 0, modified = 0, skipped = 0\<rparr>, []) (ui_controls s))"
    for pv
    by (simp add: modify_controls_def split: prod.splits)
  show ?thesis
    by (simp only: a b)
qed


section \<open>Selection by type\<close>

text \<open>
  C7. A control whose \<open>type\<close> attribute has a value that is not a member of
  \<open>selected_types\<close> is left out by \<open>modify_controls\<close>, whatever the document, the
  selection, the offsets and the mode: \<open>found\<close> is the number of controls of a selected
  type other than it, \<open>modified\<close> the number of modified controls other than it, its
  attribute dictionary after the call is the one before, and no entry of the list of
  changes, from which the report is printed, refers to it.
\<close>


theorem unselected_type_untouched:
  assumes "get_attr (root s) p ''type'' = Some t" and "t \<notin> set sel"
  shows "(case modify_controls fl s sel dx dy dw dh pv of (s', st, changes) \<Rightarrow>
           found st = length (filter (\<lambda>q. q \<noteq> p \<and> type_selected (root s) sel q) (ui_controls s)) \<and>
           modified st = (if pv then 0 else
              length (filter (\<lambda>q. q \<noteq> p \<and> modifiable fl (root s) sel q) (ui_controls s))) \<and>
           attrib_at (root s') p = attrib_at (root s) p \<and>
           p \<notin> c_element ` set changes)"
proof -
  have ns: "\<not> type_selected (root s) sel p" using assms by (simp add: type_selected_def)
  then have nm: "\<not> modifiable fl (root s) sel p" by (simp add: modifiable_def)
  have a: "attrib_at (root (fst (modify_controls fl s sel dx dy dw dh pv))) p = attrib_at (root s) p"
    using nm by (simp add: attrib_at_modify_other)
  have c: "p \<notin> c_element ` set (snd (snd (modify_controls fl s sel dx dy dw dh pv)))"
    using nm by (simp add: changes_elements)
  have f: "filter (\<lambda>q. q \<noteq> p \<and> type_selected (root s) sel q) (ui_controls s)
             = filter (type_selected (root s) sel) (ui_controls s)"
    using ns by (rule filter_neq_unselected)
  have m: "filter (\<lambda>q. q \<noteq> p \<and> modifiable fl (root s) sel q) (ui_controls s)
             = filter (modifiable fl (root s) sel) (ui_controls s)"
    using nm by (rule filter_neq_unselected)
  have st: "fst (snd (modify_controls fl s sel dx dy dw dh pv)) =
      \<lparr>found = length (filter (type_selected (root s) sel) (ui_controls s)),
       modified = (if pv then 0 else length (filter (modifiable fl (root s) sel) (ui_controls s))),
       skipped = length (filter (unparsable fl (root s) sel) (ui_controls s))\<rparr>"
    by (simp add: modify_controls_eq)
  obtain s' st' chs where r: "modify_controls fl s sel dx dy dw dh pv = (s', st', chs)"
    by (cases "modify_controls fl s sel dx dy dw dh pv") auto
  from a c st show ?thesis
    unfolding r by (simp add: f m)
qed

theorem unselected_type_untouched_witness:
  "get_attr (root example_modifier) [0, 0, 1] ''type'' = Some ''label'' \<and>
   ''label'' \<notin> set [''knob''] \<and>
   (case modify_controls int_floats example_modifier [''knob''] 5 (- 5) 0 10 False of
      (s', st, changes) \<Rightarrow>
        found st = length (filter (\<lambda>q. q \<noteq> [0, 0, 1] \<and>
                     type_selected (root example_modifier) [''knob''] q)
                   (ui_controls example_modifier)) \<and>
        modified st = (if False then 0 else
           length (filter (\<lambda>q. q \<noteq> [0, 0, 1] \<and>
                     modifiable int_floats (root example_modifier) [''knob''] q)
                   (ui_controls example_modifier))) \<and>
        attrib_at (root s') [0, 0, 1] = attrib_at (root example_modifier) [0, 0, 1] \<and>
        [0, 0, 1] \<notin> c_element ` set changes)"
proof -
  have h1: "get_attr (root example_modifier) [0, 0, 1] ''type'' = Some ''label''"
    by code_simp
  have h2: "''label'' \<notin> set [''knob'']"
    by simp
  from unselected_type_untouched [where fl = int_floats and dx = 5 and dy = "- 5" and dw = 0
      and dh = 10 and pv = False, OF h1 h2] h1 h2
  show ?thesis by blast
qed

section \<open>Attributes that are not numbers\<close>

text \<open>
  C3. A control of the tree whose type is in \<open>selected_types\<close> and whose \<open>width\<close>
  attribute is not a number: one call of \<open>modify_controls\<close> in apply mode counts it once
  in \<open>skipped\<close> (and once in \<open>found\<close>) next to the other controls, leaves its attribute
  dictionary, so its x, y, width and height, as it was, and records no change for it. The
  call goes on with the remaining controls: every control of a selected type whose four
  attributes convert is counted in \<open>modified\<close> and carries the new values afterwards.
\<close>

theorem non_numeric_width_skipped:
  assumes wf: "wf_modifier s" and p: "p \<in> set (ui_controls s)"
    and ty: "get_attr (root s) p ''type'' = Some t" and sel: "t \<in> set sel"
    and w: "get_attr (root s) p ''width'' = Some w" and nn: "float_of_str fl w = None"
  shows "(case modify_controls fl s sel dx dy dw dh False of (s', st, changes) \<Rightarrow>
           skipped st =
             Suc (length (filter (\<lambda>q. q \<noteq> p \<and> unparsable fl (root s) sel q) (ui_controls s))) \<and>
           found st =
             Suc (length (filter (\<lambda>q. q \<noteq> p \<and> type_selected (root s) sel q) (ui_controls s))) \<and>
           attrib_at (root s') p = attrib_at (root s) p \<and>
           p \<notin> c_element ` set changes \<and>
           modified st = length (filter (modifiable fl (root s) sel) (ui_controls s)) \<and>
           (\<forall>q \<in> set (ui_controls s). modifiable fl (root s) sel q \<longrightarrow>
              (\<exists>old. read_rect fl (root s) q = Some old \<and>
                 attrib_at (root s') q
                   = rect_attrib fl (add_offsets fl old dx dy dw dh) (attrib_at (root s) q))))"
proof -
  let ?m = "modify_controls fl s sel dx dy dw dh False"
  have ts: "type_selected (root s) sel p" using ty sel by (simp add: type_selected_def)
  have rn: "read_rect fl (root s) p = None" using w nn by (rule read_rect_width_None)
  have up: "unparsable fl (root s) sel p" using ts rn by (simp add: unparsable_def)
  have nm: "\<not> modifiable fl (root s) sel p" using rn by (simp add: modifiable_def)
  have d: "distinct (ui_controls s)" using wf by (simp add: wf_modifier_def)
  have sk: "length (filter (unparsable fl (root s) sel) (ui_controls s))
       = Suc (length (filter (\<lambda>q. q \<noteq> p \<and> unparsable fl (root s) sel q) (ui_controls s)))"
    using d p up by (rule length_filter_split)
  have fo: "length (filter (type_selected (root s) sel) (ui_controls s))
       = Suc (length (filter (\<lambda>q. q \<noteq> p \<and> type_selected (root s) sel q) (ui_controls s)))"
    using d p ts by (rule length_filter_split)
  have a: "attrib_at (root (fst ?m)) p = attrib_at (root s) p"
    using nm by (simp add: attrib_at_modify_other)
  have c: "p \<notin> c_element ` set (snd (snd ?m))"
    using nm by (simp add: changes_elements)
  have others: "\<exists>old. read_rect fl (root s) q = Some old \<and>
                 attrib_at (root (fst ?m)) q
                   = rect_attrib fl (add_offsets fl old dx dy dw dh) (attrib_at (root s) q)"
    if q: "q \<in> set (ui_controls s)" and mq: "modifiable fl (root s) sel q" for q
  proof -
    from mq obtain old where o: "read_rect fl (root s) q = Some old"
      and tq: "type_selected (root s) sel q" by (auto simp: modifiable_def)
    from attrib_at_modify_hit[OF wf q tq o] o show ?thesis by blast
  qed
  obtain s' st' chs where r: "?m = (s', st', chs)" by (cases ?m) auto
  have st: "st' = \<lparr>found = length (filter (type_selected (root s) sel) (ui_controls s)),
       modified = length (filter (modifiable fl (root s) sel) (ui_controls s)),
       skipped = length (filter (unparsable fl (root s) sel) (ui_controls s))\<rparr>"
    using stats_modify[of fl s sel dx dy dw dh False] r by simp
  from a c others show ?thesis
    unfolding r by (simp add: st sk fo)
qed

theorem non_numeric_width_skipped_witness:
  "wf_modifier example_modifier \<and> [0, 0, 3] \<in> set (ui_controls example_modifier) \<and>
   get_attr (root example_modifier) [0, 0, 3] ''type'' = Some ''knob'' \<and>
   ''knob'' \<in> set [''knob''] \<and>
   get_attr (root example_modifier) [0, 0, 3] ''width'' = Some ''wide'' \<and>
   float_of_str int_floats ''wide'' = None \<and>
   (case modify_controls int_floats example_modifier [''knob''] 5 (- 5) 0 10 False of
      (s', st, changes) \<Rightarrow>
        skipped st = 1 \<and> found st = 2 \<and> modified st = 1 \<and>
        attrib_at (root s') [0, 0, 3] =
          [(''type'', ''knob''), (''x'', ''0''), (''y'', ''0''), (''width'', ''wide''),
           (''height'', ''1'')] \<and>
        [0, 0, 3] \<notin> c_element ` set changes)"
proof -
  have h1: "wf_modifier example_modifier" by code_simp
  have h2: "[0, 0, 3] \<in> set (ui_controls example_modifier)" by code_simp
  have h3: "get_attr (root example_modifier) [0, 0, 3] ''type'' = Some ''knob''" by code_simp
  have h4: "''knob'' \<in> set [''knob'']" by simp
  have h5: "get_attr (root example_modifier) [0, 0, 3] ''width'' = Some ''wide''" by code_simp
  have h6: "float_of_str int_floats ''wide'' = None" by code_simp
  have e1: "length (filter (\<lambda>q. q \<noteq> [0, 0, 3] \<and>
               unparsable int_floats (root example_modifier) [''knob''] q)
               (ui_controls example_modifier)) = 0" by code_simp
  have e2: "length (filter (\<lambda>q. q \<noteq> [0, 0, 3] \<and>
               type_selected (root example_modifier) [''knob''] q)
               (ui_controls example_modifier)) = 1" by code_simp
  have e3: "length (filter (modifiable int_floats (root example_modifier) [''knob''])
               (ui_controls example_modifier)) = 1" by code_simp
  have e4: "attrib_at (root example_modifier) [0, 0, 3] =
          [(''type'', ''knob''), (''x'', ''0''), (''y'', ''0''), (''width'', ''wide''),
           (''height'', ''1'')]" by code_simp
  from non_numeric_width_skipped [where dx = 5 and dy = "- 5" and dw = 0 and dh = 10,
      OF h1 h2 h3 h4 h5 h6]
  have "(case modify_controls int_floats example_modifier [''knob''] 5 (- 5) 0 10 False of
      (s', st, changes) \<Rightarrow>
        skipped st = 1 \<and> found st = 2 \<and> modified st = 1 \<and>
        attrib_at (root s') [0, 0, 3] =
          [(''type'', ''knob''), (''x'', ''0''), (''y'', ''0''), (''width'', ''wide''),
           (''height'', ''1'')] \<and>
        [0, 0, 3] \<notin> c_element ` set changes)"
    by (simp add: e1 e2 e3 e4 split: prod.splits)
  with h1 h2 h3 h4 h5 h6 show ?thesis by blast
qed

section \<open>What an apply pass writes\<close>

text \<open>
  C10. A control of the tree of a selected type whose four attributes convert: a call of
  \<open>modify_controls\<close> in apply mode sets each of x, y, width and height to \<open>str\<close> of the
  float that is the old value plus the offset, where the old value of an absent
  attribute is \<open>float(0)\<close> (so \<open>float_attr\<close> reads it). All four are written, also
  with an offset that changes nothing and also when the attribute was absent, so the
  control carries all four attributes afterwards; its other attributes are kept.
\<close>

theorem apply_overwrites_all_four:
  assumes wf: "wf_modifier s" and p: "p \<in> set (ui_controls s)"
    and m: "modifiable fl (root s) sel p"
  shows "(case modify_controls fl s sel dx dy dw dh False of (s', st, changes) \<Rightarrow>
           (\<exists>x y w h.
              float_attr fl (root s) p ''x'' = Some x \<and>
              float_attr fl (root s) p ''y'' = Some y \<and>
              float_attr fl (root s) p ''width'' = Some w \<and>
              float_attr fl (root s) p ''height'' = Some h \<and>
              get_attr (root s') p ''x'' = Some (str_of_float fl (float_add fl x dx)) \<and>
              get_attr (root s') p ''y'' = Some (str_of_float fl (float_add fl y dy)) \<and>
              get_attr (root s') p ''width'' = Some (str_of_float fl (float_add fl w dw)) \<and>
              get_attr (root s') p ''height'' = Some (str_of_float fl (float_add fl h dh)) \<and>
              attrib_at (root s') p =
                rect_attrib fl
                  \<lparr>rect_x = float_add fl x dx, rect_y = float_add fl y dy,
                   rect_width = float_add fl w dw, rect_height = float_add fl h dh\<rparr>
                  (attrib_at (root s) p)))"
proof -
  let ?m = "modify_controls fl s sel dx dy dw dh False"
  from m obtain old where o: "read_rect fl (root s) p = Some old"
    and t: "type_selected (root s) sel p" by (auto simp: modifiable_def)
  have a: "attrib_at (root (fst ?m)) p
             = rect_attrib fl (add_offsets fl old dx dy dw dh) (attrib_at (root s) p)"
    using wf p t o by (rule attrib_at_modify_hit)
  have f: "float_attr fl (root s) p ''x'' = Some (rect_x old)"
     "float_attr fl (root s) p ''y'' = Some (rect_y old)"
     "float_attr fl (root s) p ''width'' = Some (rect_width old)"
     "float_attr fl (root s) p ''height'' = Some (rect_height old)"
    using o by (simp_all add: read_rect_Some)
  have g: "get_attr (root (fst ?m)) p ''x'' = Some (str_of_float fl (float_add fl (rect_x old) dx))"
    "get_attr (root (fst ?m)) p ''y'' = Some (str_of_float fl (float_add fl (rect_y old) dy))"
    "get_attr (root (fst ?m)) p ''width'' = Some (str_of_float fl (float_add fl (rect_width old) dw))"
    "get_attr (root (fst ?m)) p ''height'' = Some (str_of_float fl (float_add fl (rect_height old) dh))"
    by (simp_all add: get_attr_def a map_of_rect_attrib add_offsets_def)
  obtain s' st' chs where r: "?m = (s', st', chs)" by (cases ?m) auto
  from a f g show ?thesis
    unfolding r by (simp add: add_offsets_def)
qed

theorem apply_overwrites_all_four_witness:
  "wf_modifier example_modifier \<and> [0, 0, 1] \<in> set (ui_controls example_modifier) \<and>
   modifiable int_floats (root example_modifier) [''label''] [0, 0, 1] \<and>
   get_attr (root example_modifier) [0, 0, 1] ''width'' = None \<and>
   (case modify_controls int_floats example_modifier [''label''] 0 (- 5) 7 0 False of
      (s', st, changes) \<Rightarrow>
        attrib_at (root s') [0, 0, 1] =
          [(''type'', ''label''), (''label'', ''Title''), (''x'', ''5.0''), (''y'', ''0.0''),
           (''width'', ''7.0''), (''height'', ''0.0'')])"
proof -
  have h1: "wf_modifier example_modifier" by code_simp
  have h2: "[0, 0, 1] \<in> set (ui_controls example_modifier)" by code_simp
  have h3: "modifiable int_floats (root example_modifier) [''label''] [0, 0, 1]" by code_simp
  have h4: "get_attr (root example_modifier) [0, 0, 1] ''width'' = None" by code_simp
  have e1: "float_attr int_floats (root example_modifier) [0, 0, 1] ''x'' = Some 5" by code_simp
  have e2: "float_attr int_floats (root example_modifier) [0, 0, 1] ''y'' = Some 5" by code_simp
  have e3: "float_attr int_floats (root example_modifier) [0, 0, 1] ''width'' = Some 0"
    by code_simp
  have e4: "float_attr int_floats (root example_modifier) [0, 0, 1] ''height'' = Some 0"
    by code_simp
  have e5: "rect_attrib int_floats
              \<lparr>rect_x = float_add int_floats 5 0, rect_y = float_add int_floats 5 (- 5),
               rect_width = float_add int_floats 0 7, rect_height = float_add int_floats 0 0\<rparr>
              (attrib_at (root example_modifier) [0, 0, 1])
            = [(''type'', ''label''), (''label'', ''Title''), (''x'', ''5.0''), (''y'', ''0.0''),
               (''width'', ''7.0''), (''height'', ''0.0'')]" by code_simp
  obtain s' st chs where
    r: "modify_controls int_floats example_modifier [''label''] 0 (- 5) 7 0 False = (s', st, chs)"
    by (cases "modify_controls int_floats example_modifier [''label''] 0 (- 5) 7 0 False") auto
  from apply_overwrites_all_four [where dx = 0 and dy = "- 5" and dw = 7 and dh = 0,
      OF h1 h2 h3]
  obtain x y w h where
    f: "float_attr int_floats (root example_modifier) [0, 0, 1] ''x'' = Some x"
       "float_attr int_floats (root example_modifier) [0, 0, 1] ''y'' = Some y"
       "float_attr int_floats (root example_modifier) [0, 0, 1] ''width'' = Some w"
       "float_attr int_floats (root example_modifier) [0, 0, 1] ''height'' = Some h"
    and a: "attrib_at (root s') [0, 0, 1] =
              rect_attrib int_floats
                \<lparr>rect_x = float_add int_floats x 0, rect_y = float_add int_floats y (- 5),
                 rect_width = float_add int_floats w 7, rect_height = float_add int_floats h 0\<rparr>
                (attrib_at (root example_modifier) [0, 0, 1])"
    unfolding r prod.case by blast
  from f have v: "x = 5" "y = 5" "w = 0" "h = 0"
    unfolding e1 e2 e3 e4 by simp_all
  have "attrib_at (root s') [0, 0, 1] =
          [(''type'', ''label''), (''label'', ''Title''), (''x'', ''5.0''), (''y'', ''0.0''),
           (''width'', ''7.0''), (''height'', ''0.0'')]"
    using a unfolding v e5 .
  with h1 h2 h3 h4 show ?thesis unfolding r prod.case by blast
qed

end
